theory Spec2Isabelle
  imports Complex_Main "HOL-Library.Sublist"
begin

section \<open>Strings\<close>

text \<open>
  Descriptions, key phrases and labels are Python \<open>str\<close> values. They are modelled as
  \<open>string\<close> (a list of 8-bit characters); the model covers ASCII text, where
  \<open>str.lower\<close> maps \<open>A..Z\<close> to \<open>a..z\<close> and leaves every other character alone.
\<close>

definition lower_char :: "char \<Rightarrow> char" where
  "lower_char c =
     (let n = (of_char c :: nat) in if 65 \<le> n \<and> n \<le> 90 then char_of (n + 32) else c)"

text \<open>\<open>s.lower()\<close>\<close>

definition lower :: "string \<Rightarrow> string" where
  "lower s = map lower_char s"

text \<open>\<open>s.replace(" ", "")\<close>: every occurrence of the space character is deleted.\<close>

definition replace_space :: "string \<Rightarrow> string" where
  "replace_space s = filter (\<lambda>c. c \<noteq> CHR '' '') s"

text \<open>\<open>s.startswith(p)\<close>, used to spell out the substring test.\<close>

fun startswith :: "string \<Rightarrow> string \<Rightarrow> bool" where
  "startswith [] ys = True"
| "startswith (x # xs) [] = False"
| "startswith (x # xs) (y # ys) = (x = y \<and> startswith xs ys)"

text \<open>\<open>p in s\<close> on strings: \<open>p\<close> occurs in \<open>s\<close> as a contiguous block.\<close>

fun is_in :: "string \<Rightarrow> string \<Rightarrow> bool" where
  "is_in p [] = (p = [])"
| "is_in p (y # ys) = (startswith p (y # ys) \<or> is_in p ys)"

section \<open>The category database\<close>

text \<open>
  \<open>self.category_db\<close> is a dict with the three parallel lists
  \<open>"descriptions"\<close>, \<open>"business_labels"\<close> and \<open>"retailer_labels"\<close>; the
  matcher reads nothing else of it. Nothing in the class keeps the three lists at one
  length, so the record does not either.
\<close>

record category_db =
  descriptions :: "string list"
  business_labels :: "string list"
  retailer_labels :: "string list"

text \<open>
  The default database of \<open>_load_category_db\<close>: the loop over \<open>mapping_rules\<close>
  appends to the three lists, an absent label (\<open>None\<close>) becoming the empty string.
\<close>

definition mapping_rules :: "(string \<times> string option \<times> string option) list" where
  "mapping_rules =
     [(''oakhurst'', Some ''Oakhurst'', None),
      (''pleasanton'', Some ''Personal'', None),
      (''san ramon'', Some ''Personal'', None),
      (''dublin'', Some ''Personal'', None),
      (''amazon'', None, Some ''Amazon''),
      (''costco'', None, Some ''Costco'')]"

text \<open>\<open>x if x else ""\<close>: \<open>None\<close> and the empty string are both falsy.\<close>

definition or_empty :: "string option \<Rightarrow> string" where
  "or_empty x = (case x of None \<Rightarrow> [] | Some s \<Rightarrow> s)"

fun default_loop :: "(string \<times> string option \<times> string option) list \<Rightarrow> category_db \<Rightarrow> category_db" where
  "default_loop [] db = db"
| "default_loop ((desc, business, retailer) # rest) db =
     default_loop rest
       \<lparr>descriptions = descriptions db @ [desc],
        business_labels = business_labels db @ [or_empty business],
        retailer_labels = retailer_labels db @ [or_empty retailer]\<rparr>"

definition default_db :: category_db where
  "default_db =
     default_loop mapping_rules \<lparr>descriptions = [], business_labels = [], retailer_labels = []\<rparr>"

section \<open>The matcher\<close>

text \<open>
  \<open>_match_description\<close>: the description is lowercased once; the loop over
  \<open>enumerate(self.category_db["descriptions"])\<close> appends \<open>idx\<close> to \<open>matches\<close>
  when the key phrase, lowercased and with its spaces deleted, occurs in the
  description with its spaces deleted.
\<close>

fun match_loop :: "string \<Rightarrow> (nat \<times> string) list \<Rightarrow> nat list \<Rightarrow> nat list" where
  "match_loop description [] matches = matches"
| "match_loop description ((idx, key_phrase) # rest) matches =
     (if is_in (replace_space (lower key_phrase)) (replace_space description)
      then match_loop description rest (matches @ [idx])
      else match_loop description rest matches)"

definition match_description :: "category_db \<Rightarrow> string \<Rightarrow> nat list" where
  "match_description db description =
     match_loop (lower description) (enumerate 0 (descriptions db)) []"

text \<open>What \<open>categorize_transaction\<close> prints.\<close>

datatype message =
  Warning_mismatched_lengths
| Print_descriptions nat
| Print_business_labels nat
| Print_retailer_labels nat
| Warning_out_of_bounds nat

text \<open>
  The loop of \<open>categorize_transaction\<close> over \<open>matches\<close>. The state is
  \<open>business_type\<close>, \<open>retailer\<close> and the lines printed so far. A string is truthy
  when it is not empty.
\<close>

fun categorize_loop ::
  "category_db \<Rightarrow> nat list \<Rightarrow> string \<times> string \<times> message list \<Rightarrow> string \<times> string \<times> message list" where
  "categorize_loop db [] st = st"
| "categorize_loop db (idx # rest) (business_type, retailer, out) =
     (if idx \<ge> length (business_labels db) \<or> idx \<ge> length (retailer_labels db)
      then categorize_loop db rest (business_type, retailer, out @ [Warning_out_of_bounds idx])
      else
        let business_type' =
              (if business_labels db ! idx \<noteq> [] \<and> business_type = []
               then business_labels db ! idx else business_type);
            retailer' =
              (if retailer_labels db ! idx \<noteq> [] \<and> retailer = []
               then retailer_labels db ! idx else retailer)
        in categorize_loop db rest (business_type', retailer', out))"

text \<open>
  \<open>categorize_transaction\<close> returns the pair \<open>(business_type, retailer)\<close>; the second
  component of the model is what the call printed. No statement of the function can
  raise on a database of string lists: every subscript is guarded by the bounds check.
\<close>

definition categorize_transaction ::
  "category_db \<Rightarrow> string \<Rightarrow> (string \<times> string) \<times> message list" where
  "categorize_transaction db description =
     (if length (descriptions db) \<noteq> length (business_labels db) \<or>
         length (descriptions db) \<noteq> length (retailer_labels db)
      then (([], []),
            [Warning_mismatched_lengths,
             Print_descriptions (length (descriptions db)),
             Print_business_labels (length (business_labels db)),
             Print_retailer_labels (length (retailer_labels db))])
      else
        let matches = match_description db description;
            (business_type, retailer, out) = categorize_loop db matches ([], [], [])
        in ((business_type, retailer), out))"




text \<open>
  First match wins, per field, as the specification words it: \<open>v\<close> is the label of
  the lowest matched index whose label is not empty, and the empty string when no
  matched rule has a label.
\<close>

definition spec_earliest_label :: "string list \<Rightarrow> nat list \<Rightarrow> string \<Rightarrow> bool" where
  "spec_earliest_label labels ms v =
     (if \<exists>i\<in>set ms. labels ! i \<noteq> []
      then \<exists>i\<in>set ms. labels ! i \<noteq> [] \<and> v = labels ! i \<and>
             (\<forall>j\<in>set ms. j < i \<longrightarrow> labels ! j = [])
      else v = [])"

section \<open>The batch categorizer\<close>

text \<open>
  A row of the transaction frame. The code reads and writes the three columns
  \<open>"Description"\<close>, \<open>"Business Type"\<close> and \<open>"Retailer"\<close>; the other columns
  (\<open>Status\<close>, \<open>Date\<close>, \<open>Debit\<close>, \<open>Credit\<close>, \<open>Member Name\<close>, ...) are the
  extension part of the record. The three columns hold strings.
\<close>

record transaction =
  Description :: string
  Business_Type :: string
  Retailer :: string

text \<open>
  A \<open>DataFrame\<close>: its rows in order, each with its index label
  (\<open>df.index\<close>). The frames of \<open>load_transactions\<close> carry the labels
  \<open>0, 1, 2, ...\<close>; a selection of rows keeps the labels of the rows it selects.
\<close>

type_synonym 'a dataframe = "(int \<times> 'a transaction_scheme) list"









section \<open>The similarity grouper\<close>

text \<open>
  \<open>find_similar_descriptions\<close> compares \<open>SequenceMatcher(None, desc1, desc2).ratio()\<close>
  with the threshold. \<open>SequenceMatcher\<close> belongs to Python's \<open>difflib\<close>, not to this
  repository, so the grouper takes the similarity as a parameter \<open>similarity desc1 desc2\<close>
  with values in any linear order (the floats that \<open>ratio\<close> returns are one, and the
  threshold is of the same type).

  The inner loop over \<open>enumerate(descriptions)\<close>, for the seed at position \<open>i\<close> with
  description \<open>desc1\<close>. The state is \<open>group\<close> (written \<open>grp\<close>) and \<open>grouped\<close>.
\<close>

fun group_members ::
  "(string \<Rightarrow> string \<Rightarrow> 'r::linorder) \<Rightarrow> 'r \<Rightarrow> int list \<Rightarrow> nat \<Rightarrow> string \<Rightarrow>
     (nat \<times> string) list \<Rightarrow> int list \<times> nat set \<Rightarrow> int list \<times> nat set" where
  "group_members similarity threshold indices i desc1 [] (grp, grouped) = (grp, grouped)"
| "group_members similarity threshold indices i desc1 ((j, desc2) # rest) (grp, grouped) =
     (if i = j \<or> j \<in> grouped
      then group_members similarity threshold indices i desc1 rest (grp, grouped)
      else if similarity desc1 desc2 \<ge> threshold
      then group_members similarity threshold indices i desc1 rest
             (grp @ [indices ! j], insert j grouped)
      else group_members similarity threshold indices i desc1 rest (grp, grouped))"

text \<open>
  The outer loop over \<open>enumerate(descriptions)\<close>; the list \<open>descriptions\<close> of the
  source is \<open>descs\<close> here. The state is \<open>grouped\<close> and \<open>groups\<close>.
\<close>

fun group_seeds ::
  "(string \<Rightarrow> string \<Rightarrow> 'r::linorder) \<Rightarrow> 'r \<Rightarrow> string list \<Rightarrow> int list \<Rightarrow>
     (nat \<times> string) list \<Rightarrow> nat set \<times> int list list \<Rightarrow> int list list" where
  "group_seeds similarity threshold descs indices [] (grouped, groups) = groups"
| "group_seeds similarity threshold descs indices ((i, desc1) # rest) (grouped, groups) =
     (if i \<in> grouped
      then group_seeds similarity threshold descs indices rest (grouped, groups)
      else
        let (grp, grouped') =
              group_members similarity threshold indices i desc1 (enumerate 0 descs)
                ([indices ! i], insert i grouped)
        in group_seeds similarity threshold descs indices rest
             (grouped', if length grp > 1 then groups @ [grp] else groups))"

text \<open>
  \<open>find_similar_descriptions(df, threshold)\<close>: \<open>descriptions\<close> is the column
  \<open>"Description"\<close> and \<open>indices\<close> the index labels of the frame, which have the same
  length, so \<open>indices[i]\<close> is in range for every position the loops visit.
\<close>

definition find_similar_descriptions ::
  "(string \<Rightarrow> string \<Rightarrow> 'r::linorder) \<Rightarrow> 'a dataframe \<Rightarrow> 'r \<Rightarrow> int list list" where
  "find_similar_descriptions similarity df threshold =
     (if df = [] then []
      else
        let descs = map (\<lambda>(l, row). Description row) df;
            indices = map fst df
        in group_seeds similarity threshold descs indices
             (enumerate 0 descs) ({}, []))"

text \<open>
  The grouping as the specification words it, on the records that are not yet
  consumed, each with its original index: the first record seeds a group; the later
  records whose similarity to the seed reaches the threshold join it in order and are
  consumed; the group is emitted when it has a member besides the seed; the scan goes
  on with the records left over.
\<close>

fun spec_group ::
  "(string \<Rightarrow> string \<Rightarrow> 'r::linorder) \<Rightarrow> 'r \<Rightarrow> (int \<times> string) list \<Rightarrow> int list list" where
  "spec_group similarity threshold [] = []"
| "spec_group similarity threshold ((i, seed) # later) =
     (let members = filter (\<lambda>(j, d). similarity seed d \<ge> threshold) later;
          left_over = filter (\<lambda>(j, d). \<not> similarity seed d \<ge> threshold) later
      in (if members = [] then [] else [i # map fst members]) @
         spec_group similarity threshold left_over)"

text \<open>The indices that appear in some group of the output.\<close>

definition grouped_indices :: "int list list \<Rightarrow> int set" where
  "grouped_indices groups = \<Union> (set (map set groups))"

text \<open>
  Modelled from the spec: \<open>SequenceMatcher(None, a, b).ratio()\<close> of Python's
  \<open>difflib\<close>, which the repository imports and does not contain. The specification
  describes it as matching blocks found greedily from the two full strings, with
  \<open>ratio = 2 * matched_chars / (len(a) + len(b))\<close>. \<open>find_longest_match\<close> is the
  longest block common to both strings, the one starting earliest in \<open>a\<close> and, among
  those, earliest in \<open>b\<close>; the blocks to its left and to its right are matched in the
  same way. No character is junk (\<open>isjunk\<close> is \<open>None\<close>), and the strings are shorter
  than the 200 characters from which \<open>difflib\<close> starts to discount frequent
  characters. The ratio of two empty strings is 1. It is used in the instances below
  only; every general statement about the grouper holds for any similarity.
\<close>

fun common_prefix_length :: "string \<Rightarrow> string \<Rightarrow> nat" where
  "common_prefix_length (x # xs) (y # ys) = (if x = y then Suc (common_prefix_length xs ys) else 0)"
| "common_prefix_length xs ys = 0"

definition find_longest_match :: "string \<Rightarrow> string \<Rightarrow> nat \<times> nat \<times> nat" where
  "find_longest_match a b =
     fold (\<lambda>i. fold (\<lambda>j (besti, bestj, bestsize).
                  let k = common_prefix_length (drop i a) (drop j b)
                  in if k > bestsize then (i, j, k) else (besti, bestj, bestsize))
               [0..<length b])
       [0..<length a] (0, 0, 0)"

lemma fold_invariant:
  "P s \<Longrightarrow> (\<And>x s. x \<in> set xs \<Longrightarrow> P s \<Longrightarrow> P (f x s)) \<Longrightarrow> P (fold f xs s)"
  by (induction xs arbitrary: s) auto

lemma find_longest_match_start:
  assumes "find_longest_match a b = (i, j, k)" and "k \<noteq> 0"
  shows "i < length a"
proof -
  let ?P = "\<lambda>(besti :: nat, bestj :: nat, bestsize :: nat). bestsize = 0 \<or> besti < length a"
  have "?P (find_longest_match a b)"
    unfolding find_longest_match_def
  proof (rule fold_invariant)
    show "?P (0, 0, 0)" by simp
  next
    fix x and s :: "nat \<times> nat \<times> nat"
    assume x: "x \<in> set [0..<length a]" and s: "?P s"
    show "?P (fold (\<lambda>j (besti, bestj, bestsize).
                  let k = common_prefix_length (drop x a) (drop j b)
                  in if k > bestsize then (x, j, k) else (besti, bestj, bestsize))
               [0..<length b] s)"
    proof (rule fold_invariant)
      show "?P s" by (rule s)
    next
      fix y and t :: "nat \<times> nat \<times> nat"
      assume "?P t"
      with x show "?P (case t of (besti, bestj, bestsize) \<Rightarrow>
                  let k = common_prefix_length (drop x a) (drop y b)
                  in if k > bestsize then (x, y, k) else (besti, bestj, bestsize))"
        by (auto simp: Let_def split: prod.splits)
    qed
  qed
  with assms show ?thesis by simp
qed

function matching_characters :: "string \<Rightarrow> string \<Rightarrow> nat" where
  "matching_characters a b =
     (case find_longest_match a b of (i, j, k) \<Rightarrow>
        if k = 0 then 0
        else matching_characters (take i a) (take j b) + k +
             matching_characters (drop (i + k) a) (drop (j + k) b))"
  by pat_completeness auto
termination
proof (relation "measure (\<lambda>(a, b). length a)", goal_cases)
  case 1
  show ?case by simp
next
  case (2 a b i y j k)
  then have "i < length a" using find_longest_match_start [of a b i j k] by simp
  then show ?case by simp
next
  case (3 a b i y j k)
  then have "i < length a" using find_longest_match_start [of a b i j k] by simp
  with 3 show ?case by simp
qed

definition ratio :: "string \<Rightarrow> string \<Rightarrow> rat" where
  "ratio a b =
     (if length a + length b = 0 then 1
      else 2 * of_nat (matching_characters a b) / of_nat (length a + length b))"

text \<open>
  Two frames used in the instances below: the four descriptions of the test suite,
  and three short descriptions of which the second is similar to both others while
  the first and the third have nothing in common.
\<close>

definition test_frame :: "unit dataframe" where
  "test_frame =
     [(0, \<lparr>Description = ''WALMART #1234'', Business_Type = [], Retailer = []\<rparr>),
      (1, \<lparr>Description = ''WALMART #5678'', Business_Type = [], Retailer = []\<rparr>),
      (2, \<lparr>Description = ''STARBUCKS #1234'', Business_Type = [], Retailer = []\<rparr>),
      (3, \<lparr>Description = ''CHEVRON GAS'', Business_Type = [], Retailer = []\<rparr>)]"

definition chain_frame :: "unit dataframe" where
  "chain_frame =
     [(0, \<lparr>Description = ''AB'', Business_Type = [], Retailer = []\<rparr>),
      (1, \<lparr>Description = ''BC'', Business_Type = [], Retailer = []\<rparr>),
      (2, \<lparr>Description = ''C'', Business_Type = [], Retailer = []\<rparr>)]"

definition walmart_frame :: "unit dataframe" where
  "walmart_frame =
     [(0, \<lparr>Description = ''WALMART #1234'', Business_Type = [], Retailer = []\<rparr>),
      (1, \<lparr>Description = ''WALMART #1234'', Business_Type = [], Retailer = []\<rparr>),
      (2, \<lparr>Description = ''WALMART #5678'', Business_Type = [], Retailer = []\<rparr>)]"

section \<open>Loading and saving the category database\<close>

text \<open>
  JSON values, as \<open>json.load\<close> returns them and \<open>json.dump\<close> writes them. An object
  is the list of its members in order; its keys are pairwise distinct, as the keys of
  a Python dict are.
\<close>

datatype json =
  JNull
| JBool bool
| JNumber int
| JString string
| JArray "json list"
| JObject "(string \<times> json) list"



text \<open>The exceptions that the code of the class can raise or catch.\<close>

datatype py_exception =
  JSONDecodeError
| KeyError string
| TypeError
| FileNotFoundError
| AttributeError string




text \<open>The dict that the code builds from the three lists of the default database.\<close>

definition dict_of_db :: "category_db \<Rightarrow> json" where
  "dict_of_db db =
     JObject
       [(''descriptions'', JArray (map JString (descriptions db))),
        (''business_labels'', JArray (map JString (business_labels db))),
        (''retailer_labels'', JArray (map JString (retailer_labels db)))]"





text \<open>\<open>add_business_type(business_type)\<close>: the body is \<open>pass\<close>.\<close>

definition add_business_type :: "json \<Rightarrow> string \<Rightarrow> json" where
  "add_business_type category_db business_type = category_db"



text \<open>
  The attributes of a \<open>TransactionProcessor\<close>: the methods that the class body defines,
  in source order, and the instance attribute that \<open>__init__\<close> sets. Looking up any
  other name (the names that every Python object has apart) raises \<open>AttributeError\<close>.
\<close>

definition TransactionProcessor_methods :: "string list" where
  "TransactionProcessor_methods =
     [''__init__'', ''_load_category_db'', ''save_category_db'', ''add_business_type'',
      ''load_transactions'', ''_match_description'', ''categorize_transaction'',
      ''categorize_transactions'', ''find_similar_descriptions'', ''save_transactions'']"

definition getattr :: "string \<Rightarrow> py_exception + string" where
  "getattr name =
     (if name \<in> set (''category_db'' # TransactionProcessor_methods)
      then Inr name else Inl (AttributeError name))"


section \<open>Properties of the matcher\<close>

lemma startswith_prefix: "startswith p s = prefix p s"
  by (induction p s rule: startswith.induct) simp_all

lemma is_in_sublist: "is_in p s = sublist p s"
  by (induction s) (simp_all add: sublist_Cons_right startswith_prefix)


lemma is_in_empty: "is_in [] s"
  by (simp add: is_in_sublist)

lemma lower_char_space: "lower_char c = CHR '' '' \<longleftrightarrow> c = CHR '' ''"
proof -
  have "of_char (lower_char c) = (32::nat) \<longleftrightarrow> of_char c = (32::nat)"
    by (auto simp: lower_char_def Let_def)
  moreover have "\<And>d. of_char d = (32::nat) \<longleftrightarrow> d = CHR '' ''"
  proof -
    fix d :: char
    have "of_char d = (of_char (CHR '' '') :: nat) \<longleftrightarrow> d = CHR '' ''"
      by (rule of_char_eq_iff)
    then show "of_char d = (32::nat) \<longleftrightarrow> d = CHR '' ''" by simp
  qed
  ultimately show ?thesis by simp
qed

lemma replace_space_lower_empty: "replace_space (lower s) = [] \<longleftrightarrow> replace_space s = []"
  by (induction s) (simp_all add: replace_space_def lower_def lower_char_space)

text \<open>The loop only ever appends the indices of the pairs that pass the test.\<close>

lemma match_loop_acc:
  "match_loop d ps acc =
     acc @ map fst (filter (\<lambda>(i, k). is_in (replace_space (lower k)) (replace_space d)) ps)"
  by (induction ps arbitrary: acc) auto

lemma enumerate_as_map: "enumerate 0 xs = map (\<lambda>i. (i, xs ! i)) [0..<length xs]"
  by (simp add: enumerate_eq_zip zip_eq_conv map_nth comp_def)

lemma match_description_filter:
  "match_description db d =
     filter (\<lambda>i. is_in (replace_space (lower (descriptions db ! i))) (replace_space (lower d)))
       [0..<length (descriptions db)]"
  by (simp add: match_description_def match_loop_acc enumerate_as_map filter_map comp_def)

lemma match_description_bound:
  "i \<in> set (match_description db d) \<Longrightarrow> i < length (descriptions db)"
  by (simp add: match_description_filter)

lemma match_description_ascending: "sorted_wrt (<) (match_description db d)"
  by (simp add: match_description_filter sorted_wrt_filter)

text \<open>
  With every matched index in range, the loop leaves a field that is already set
  alone and otherwise sets it from the first index of the list that has a label.
\<close>

lemma categorize_loop_find:
  "\<forall>i\<in>set ms. i < length (business_labels db) \<and> i < length (retailer_labels db) \<Longrightarrow>
   categorize_loop db ms (b, r, out) =
     ((if b = [] then (case find (\<lambda>i. business_labels db ! i \<noteq> []) ms of
                        None \<Rightarrow> [] | Some i \<Rightarrow> business_labels db ! i) else b),
      (if r = [] then (case find (\<lambda>i. retailer_labels db ! i \<noteq> []) ms of
                        None \<Rightarrow> [] | Some i \<Rightarrow> retailer_labels db ! i) else r),
      out)"
  by (induction ms arbitrary: b r) (auto simp: Let_def)

lemma find_ascending:
  "sorted_wrt (<) ms \<Longrightarrow>
   (case find P ms of None \<Rightarrow> \<forall>i\<in>set ms. \<not> P i
    | Some i \<Rightarrow> i \<in> set ms \<and> P i \<and> (\<forall>j\<in>set ms. j < i \<longrightarrow> \<not> P j))"
  for ms :: "nat list"
  by (induction ms) (auto split: option.splits)

lemma find_earliest_label:
  assumes "sorted_wrt (<) ms"
  shows "spec_earliest_label labels ms
           (case find (\<lambda>i. labels ! i \<noteq> []) ms of None \<Rightarrow> [] | Some i \<Rightarrow> labels ! i)"
  using find_ascending [OF assms, of "\<lambda>i. labels ! i \<noteq> []"]
  unfolding spec_earliest_label_def
  by (auto split: option.splits)

lemma categorize_transaction_find:
  assumes "length (business_labels db) = length (descriptions db)"
    and "length (retailer_labels db) = length (descriptions db)"
  shows "categorize_transaction db d =
     (((case find (\<lambda>i. business_labels db ! i \<noteq> []) (match_description db d) of
          None \<Rightarrow> [] | Some i \<Rightarrow> business_labels db ! i),
       (case find (\<lambda>i. retailer_labels db ! i \<noteq> []) (match_description db d) of
          None \<Rightarrow> [] | Some i \<Rightarrow> retailer_labels db ! i)), [])"
proof -
  have "\<forall>i\<in>set (match_description db d).
          i < length (business_labels db) \<and> i < length (retailer_labels db)"
    using assms by (simp add: match_description_bound)
  from categorize_loop_find [OF this, of "[]" "[]" "[]"] assms
  show ?thesis by (simp add: categorize_transaction_def)
qed

section \<open>Properties of the batch categorizer\<close>










section \<open>Properties of the similarity grouper\<close>

text \<open>
  The inner loop appends, in order, the index of every position that is not the seed's,
  is not consumed yet and is similar enough to the seed, and consumes these positions.
\<close>

lemma group_members_filter:
  assumes "distinct (map fst ps)"
  shows "group_members sim t idxs i d ps (grp, grouped) =
     (grp @ map (\<lambda>(j, e). idxs ! j)
              (filter (\<lambda>(j, e). j \<noteq> i \<and> j \<notin> grouped \<and> sim d e \<ge> t) ps),
      grouped \<union> fst ` set (filter (\<lambda>(j, e). j \<noteq> i \<and> j \<notin> grouped \<and> sim d e \<ge> t) ps))"
  using assms
proof (induction ps arbitrary: grp grouped)
  case Nil
  show ?case by simp
next
  case (Cons p ps)
  obtain j e where p: "p = (j, e)" by (cases p)
  from Cons.prems p have j: "j \<notin> fst ` set ps" and d: "distinct (map fst ps)" by auto
  show ?case
  proof (cases "j \<noteq> i \<and> j \<notin> grouped \<and> sim d e \<ge> t")
    case False
    then show ?thesis unfolding p by (auto simp: Cons.IH [OF d])
  next
    case True
    have same: "filter (\<lambda>(j', e'). j' \<noteq> i \<and> j' \<notin> insert j grouped \<and> sim d e' \<ge> t) ps =
                filter (\<lambda>(j', e'). j' \<noteq> i \<and> j' \<notin> grouped \<and> sim d e' \<ge> t) ps"
      using j by (intro filter_cong) (auto simp: image_iff)
    have "group_members sim t idxs i d (p # ps) (grp, grouped) =
            group_members sim t idxs i d ps (grp @ [idxs ! j], insert j grouped)"
      using True unfolding p by auto
    also have "\<dots> = ((grp @ [idxs ! j]) @ map (\<lambda>(j, e). idxs ! j)
              (filter (\<lambda>(j', e'). j' \<noteq> i \<and> j' \<notin> insert j grouped \<and> sim d e' \<ge> t) ps),
        insert j grouped \<union> fst ` set
              (filter (\<lambda>(j', e'). j' \<noteq> i \<and> j' \<notin> insert j grouped \<and> sim d e' \<ge> t) ps))"
      by (rule Cons.IH [OF d])
    also have "\<dots> = (grp @ map (\<lambda>(j, e). idxs ! j)
              (filter (\<lambda>(j, e). j \<noteq> i \<and> j \<notin> grouped \<and> sim d e \<ge> t) (p # ps)),
        grouped \<union> fst ` set
              (filter (\<lambda>(j, e). j \<noteq> i \<and> j \<notin> grouped \<and> sim d e \<ge> t) (p # ps)))"
      unfolding same using True unfolding p by simp
    finally show ?thesis .
  qed
qed


lemma distinct_fst_unique:
  "distinct (map fst ps) \<Longrightarrow> (j, e) \<in> set ps \<Longrightarrow> (j, e') \<in> set ps \<Longrightarrow> e = e'"
  by (meson eq_key_imp_eq_value)

lemma group_seeds_spec:
  assumes "enumerate 0 descs = pre @ ps" and "fst ` set pre \<subseteq> grouped"
  shows "group_seeds sim t descs idxs ps (grouped, groups) =
           groups @ spec_group sim t
             (map (\<lambda>(j, e). (idxs ! j, e)) (filter (\<lambda>(j, e). j \<notin> grouped) ps))"
  using assms
proof (induction ps arbitrary: pre grouped groups)
  case Nil
  show ?case by simp
next
  case (Cons p rest)
  obtain i d where p: "p = (i, d)" by (cases p)
  let ?g = "\<lambda>(j :: nat, e :: string). (idxs ! j, e)"
  have "distinct (map fst (enumerate 0 descs))" by simp
  then have dist: "distinct (map fst (pre @ (i, d) # rest))"
    using Cons.prems(1) p by simp
  then have i_pre: "i \<notin> fst ` set pre" and i_rest: "i \<notin> fst ` set rest"
    and d_rest: "distinct (map fst rest)" by auto
  have all': "enumerate 0 descs = (pre @ [(i, d)]) @ rest"
    using Cons.prems(1) p by simp
  show ?case
  proof (cases "i \<in> grouped")
    case True
    have sub: "fst ` set (pre @ [(i, d)]) \<subseteq> grouped"
      using True Cons.prems(2) by auto
    show ?thesis
      unfolding p using True by (simp add: Cons.IH [OF all' sub])
  next
    case False
    define A where "A = filter (\<lambda>(j, e). j \<notin> grouped \<and> sim d e \<ge> t) rest"
    define grouped' where "grouped' = insert i grouped \<union> fst ` set A"
    have acc: "filter (\<lambda>(j, e). j \<noteq> i \<and> j \<notin> insert i grouped \<and> sim d e \<ge> t)
                 (enumerate 0 descs) = A"
    proof -
      have "filter (\<lambda>(j, e). j \<noteq> i \<and> j \<notin> insert i grouped \<and> sim d e \<ge> t) pre = []"
        using Cons.prems(2) by (auto simp: filter_empty_conv)
      moreover have "filter (\<lambda>(j, e). j \<noteq> i \<and> j \<notin> insert i grouped \<and> sim d e \<ge> t) rest = A"
        unfolding A_def using i_rest by (intro filter_cong) (auto simp: image_iff)
      ultimately show ?thesis unfolding Cons.prems(1) p by simp
    qed
    have inner: "group_members sim t idxs i d (enumerate 0 descs) ([idxs ! i], insert i grouped) =
                   (idxs ! i # map (\<lambda>(j, e). idxs ! j) A, grouped')"
    proof -
      have "distinct (map fst (enumerate 0 descs))" by simp
      from group_members_filter [OF this, of sim t idxs i d "[idxs ! i]" "insert i grouped"]
      show ?thesis unfolding acc grouped'_def by simp
    qed
    have sub: "fst ` set (pre @ [(i, d)]) \<subseteq> grouped'"
      using Cons.prems(2) by (auto simp: grouped'_def)
    have left: "filter (\<lambda>(j, e). j \<notin> grouped') rest =
                filter (\<lambda>(j, e). \<not> sim d e \<ge> t) (filter (\<lambda>(j, e). j \<notin> grouped) rest)"
    proof -
      have "j \<notin> grouped' \<longleftrightarrow> j \<notin> grouped \<and> \<not> sim d e \<ge> t" if "(j, e) \<in> set rest" for j e
      proof -
        have "j \<noteq> i" using that i_rest by (auto simp: image_iff)
        moreover have "j \<in> fst ` set A \<longleftrightarrow> j \<notin> grouped \<and> sim d e \<ge> t"
        proof
          assume "j \<in> fst ` set A"
          then obtain e' where e': "(j, e') \<in> set rest" "j \<notin> grouped" "sim d e' \<ge> t"
            by (auto simp: A_def)
          with distinct_fst_unique [OF d_rest that e'(1)] show "j \<notin> grouped \<and> sim d e \<ge> t"
            by simp
        next
          assume "j \<notin> grouped \<and> sim d e \<ge> t"
          with that have "(j, e) \<in> set A" by (simp add: A_def)
          then show "j \<in> fst ` set A" by force
        qed
        ultimately show ?thesis by (auto simp: grouped'_def)
      qed
      then show ?thesis
        unfolding filter_filter by (intro filter_cong) auto
    qed
    have members: "filter (\<lambda>(l, e). sim d e \<ge> t) (map ?g (filter (\<lambda>(j, e). j \<notin> grouped) rest)) =
                     map ?g A"
      unfolding A_def filter_map filter_filter
      by (rule arg_cong [where f = "map ?g"], intro filter_cong) auto
    have left_over: "filter (\<lambda>(l, e). \<not> sim d e \<ge> t) (map ?g (filter (\<lambda>(j, e). j \<notin> grouped) rest)) =
                     map ?g (filter (\<lambda>(j, e). j \<notin> grouped') rest)"
      unfolding left filter_map
      by (rule arg_cong [where f = "map ?g"], intro filter_cong) auto
    have lhs: "group_seeds sim t descs idxs (p # rest) (grouped, groups) =
            group_seeds sim t descs idxs rest
              (grouped', if A \<noteq> [] then groups @ [idxs ! i # map (\<lambda>(j, e). idxs ! j) A] else groups)"
      unfolding p using False by (simp add: inner)
    have rhs: "spec_group sim t (map ?g (filter (\<lambda>(j, e). j \<notin> grouped) (p # rest))) =
            (if A = [] then [] else [idxs ! i # map (\<lambda>(j, e). idxs ! j) A]) @
            spec_group sim t (map ?g (filter (\<lambda>(j, e). j \<notin> grouped') rest))"
      unfolding p using False by (simp add: members left_over Let_def) auto
    show ?thesis
      unfolding lhs rhs by (simp add: Cons.IH [OF all' sub])
  qed
qed

lemma find_similar_descriptions_eq_spec_group:
  "find_similar_descriptions sim df t =
     spec_group sim t (map (\<lambda>(l, row). (l, Description row)) df)"
proof (cases "df = []")
  case True
  then show ?thesis by (simp add: find_similar_descriptions_def)
next
  case False
  define descs where "descs = map (\<lambda>(l, row). Description row) df"
  define idxs where "idxs = map fst df"
  have e: "enumerate 0 descs = [] @ enumerate 0 descs" by simp
  have "map (\<lambda>(j, e). (idxs ! j, e)) (enumerate 0 descs) = map (\<lambda>(l, row). (l, Description row)) df"
    by (rule nth_equalityI) (simp_all add: descs_def idxs_def nth_enumerate_eq case_prod_beta)
  then show ?thesis
    using False group_seeds_spec [OF e, of "{}" sim t idxs "[]"]
    by (simp add: find_similar_descriptions_def descs_def [symmetric] idxs_def [symmetric])
qed

lemma spec_group_shape:
  "g \<in> set (spec_group sim t ps) \<Longrightarrow> 2 \<le> length g \<and> set g \<subseteq> fst ` set ps"
proof (induction sim t ps rule: spec_group.induct)
  case (1 sim t)
  then show ?case by simp
next
  case (2 sim t i seed later)
  let ?members = "filter (\<lambda>(j, d). sim seed d \<ge> t) later"
  let ?left = "filter (\<lambda>(j, d). \<not> sim seed d \<ge> t) later"
  from "2.prems" consider "?members \<noteq> []" "g = i # map fst ?members"
    | "g \<in> set (spec_group sim t ?left)"
    by (auto simp: Let_def split: if_splits)
  then show ?case
  proof cases
    case 1
    have "length ?members \<ge> 1" using 1(1) by (cases ?members) auto
    moreover have "set (map fst ?members) \<subseteq> fst ` set later" by auto
    ultimately show ?thesis using 1(2) by auto
  next
    case 2
    from "2.IH" [OF refl refl 2] show ?thesis by auto
  qed
qed

lemma filter_decomp:
  "filter P ps = xs @ x # ys \<Longrightarrow>
   \<exists>xs1 ys1. ps = xs1 @ x # ys1 \<and> xs = filter P xs1 \<and> ys = filter P ys1"
proof (induction ps arbitrary: xs)
  case Nil
  then show ?case by simp
next
  case (Cons a ps)
  show ?case
  proof (cases "P a")
    case False
    with Cons.prems have "filter P ps = xs @ x # ys" by simp
    from Cons.IH [OF this] obtain xs1 ys1 where
      "ps = xs1 @ x # ys1" "xs = filter P xs1" "ys = filter P ys1" by blast
    with False have "a # ps = (a # xs1) @ x # ys1 \<and> xs = filter P (a # xs1) \<and> ys = filter P ys1"
      by simp
    then show ?thesis by blast
  next
    case True
    with Cons.prems have eq: "a # filter P ps = xs @ x # ys" by simp
    show ?thesis
    proof (cases xs)
      case Nil
      with eq have "a # ps = [] @ x # ps \<and> xs = filter P [] \<and> ys = filter P ps" by simp
      then show ?thesis by blast
    next
      case (Cons b xs')
      with eq have b: "b = a" and "filter P ps = xs' @ x # ys" by simp_all
      from Cons.IH [OF this(2)] obtain xs1 ys1 where
        "ps = xs1 @ x # ys1" "xs' = filter P xs1" "ys = filter P ys1" by blast
      with True Cons b
      have "a # ps = (a # xs1) @ x # ys1 \<and> xs = filter P (a # xs1) \<and> ys = filter P ys1"
        by simp
      then show ?thesis by blast
    qed
  qed
qed

lemma grouped_indices_iff: "l \<in> grouped_indices gs \<longleftrightarrow> (\<exists>g\<in>set gs. l \<in> set g)"
  by (auto simp: grouped_indices_def)

lemma grouped_indices_spec_group_Cons:
  "grouped_indices (spec_group sim t ((i, seed) # later)) =
     (if filter (\<lambda>(j, d). sim seed d \<ge> t) later = [] then {}
      else insert i (fst ` set (filter (\<lambda>(j, d). sim seed d \<ge> t) later))) \<union>
     grouped_indices (spec_group sim t (filter (\<lambda>(j, d). \<not> sim seed d \<ge> t) later))"
  by (auto simp: grouped_indices_def Let_def)

lemma spec_group_member_has_partner:
  "l \<in> grouped_indices (spec_group sim t ps) \<Longrightarrow>
   \<exists>xs d ys l' d'. ps = xs @ (l, d) # ys \<and> (l', d') \<in> set (xs @ ys) \<and>
      (sim d d' \<ge> t \<or> sim d' d \<ge> t)"
proof (induction sim t ps rule: spec_group.induct)
  case (1 sim t)
  then show ?case by (simp add: grouped_indices_def)
next
  case (2 sim t i seed later)
  let ?members = "filter (\<lambda>(j, d). sim seed d \<ge> t) later"
  let ?left = "filter (\<lambda>(j, d). \<not> sim seed d \<ge> t) later"
  from "2.prems" consider (seed) "?members \<noteq> []" "l = i"
    | (member) "l \<in> fst ` set ?members"
    | (later) "l \<in> grouped_indices (spec_group sim t ?left)"
    unfolding grouped_indices_spec_group_Cons by (auto split: if_splits)
  then show ?case
  proof cases
    case seed
    from seed(1) have "\<exists>q. q \<in> set ?members" by (cases ?members) auto
    then obtain l' d' where "(l', d') \<in> set ?members" by auto
    then have "(l', d') \<in> set later" "sim seed d' \<ge> t" by simp_all
    with seed(2) have "(i, seed) # later = [] @ (l, seed) # later \<and>
        (l', d') \<in> set ([] @ later) \<and> (sim seed d' \<ge> t \<or> sim d' seed \<ge> t)"
      by simp
    then show ?thesis by blast
  next
    case member
    then obtain d where d: "(l, d) \<in> set later" "sim seed d \<ge> t" by auto
    from split_list [OF d(1)] obtain xs ys where "later = xs @ (l, d) # ys" by blast
    with d(2) have "(i, seed) # later = ((i, seed) # xs) @ (l, d) # ys \<and>
        (i, seed) \<in> set (((i, seed) # xs) @ ys) \<and> (sim d seed \<ge> t \<or> sim seed d \<ge> t)"
      by simp
    then show ?thesis by blast
  next
    case later
    from "2.IH" [OF refl refl later] obtain xs d ys l' d' where
      left: "?left = xs @ (l, d) # ys" and p: "(l', d') \<in> set (xs @ ys)"
      and s: "sim d d' \<ge> t \<or> sim d' d \<ge> t" by blast
    from filter_decomp [OF left] obtain xs1 ys1 where
      l1: "later = xs1 @ (l, d) # ys1" and "xs = filter (\<lambda>(j, d). \<not> sim seed d \<ge> t) xs1"
      and "ys = filter (\<lambda>(j, d). \<not> sim seed d \<ge> t) ys1" by blast
    with p have "(l', d') \<in> set (xs1 @ ys1)" by auto
    with l1 s have "(i, seed) # later = ((i, seed) # xs1) @ (l, d) # ys1 \<and>
        (l', d') \<in> set (((i, seed) # xs1) @ ys1) \<and> (sim d d' \<ge> t \<or> sim d' d \<ge> t)"
      by simp
    then show ?thesis by blast
  qed
qed

lemma spec_group_covers_partnered:
  assumes "snd ` set ps \<subseteq> D"
    and "\<forall>a\<in>D. \<forall>b\<in>D. sim a b \<ge> t \<longrightarrow> sim b a \<ge> t"
    and "\<forall>a\<in>D. \<forall>b\<in>D. \<forall>c\<in>D. sim a b \<ge> t \<longrightarrow> sim b c \<ge> t \<longrightarrow> sim a c \<ge> t"
    and "ps = xs @ (l, d) # ys" and "(l', d') \<in> set (xs @ ys)" and "sim d d' \<ge> t"
  shows "l \<in> grouped_indices (spec_group sim t ps)"
  using assms
proof (induction sim t ps arbitrary: xs ys rule: spec_group.induct)
  case (1 sim t)
  from "1.prems"(4) show ?case by simp
next
  case (2 sim t i seed later)
  let ?Q = "\<lambda>(j :: int, d). \<not> sim seed d \<ge> t"
  let ?members = "filter (\<lambda>(j, d). sim seed d \<ge> t) later"
  let ?left = "filter ?Q later"
  note sub = "2.prems"(1) and sym = "2.prems"(2) and trans = "2.prems"(3)
    and ps = "2.prems"(4) and partner = "2.prems"(5) and close = "2.prems"(6)
  have "(l, d) \<in> set ((i, seed) # later)" unfolding ps by simp
  then have "d \<in> snd ` set ((i, seed) # later)" by (rule image_eqI [rotated]) simp
  with sub have in_d: "d \<in> D" ..
  have "(l', d') \<in> set ((i, seed) # later)" unfolding ps using partner by auto
  then have "d' \<in> snd ` set ((i, seed) # later)" by (rule image_eqI [rotated]) simp
  with sub have in_d': "d' \<in> D" ..
  have "seed \<in> snd ` set ((i, seed) # later)" by simp
  with sub have in_seed: "seed \<in> D" ..
  have closed_back: "sim d' d \<ge> t"
    using sym [rule_format, OF in_d in_d' close] .
  show ?case
  proof (cases xs)
    case Nil
    with ps have eq: "l = i" "d = seed" "later = ys" by simp_all
    with partner Nil close have "(l', d') \<in> set ?members" by simp
    then have "?members \<noteq> []" by (auto simp: filter_empty_conv)
    then show ?thesis
      unfolding grouped_indices_spec_group_Cons using eq(1) by simp
  next
    case (Cons x xs')
    with ps have x: "x = (i, seed)" and later: "later = xs' @ (l, d) # ys" by simp_all
    show ?thesis
    proof (cases "sim seed d \<ge> t")
      case True
      with later have m: "(l, d) \<in> set ?members" by simp
      then have "?members \<noteq> []" by (auto simp: filter_empty_conv)
      moreover from m have "l \<in> fst ` set ?members" by (rule image_eqI [rotated]) simp
      ultimately show ?thesis unfolding grouped_indices_spec_group_Cons by simp
    next
      case False
      have nd': "\<not> sim seed d' \<ge> t"
      proof
        assume "sim seed d' \<ge> t"
        from trans [rule_format, OF in_seed in_d' in_d this closed_back] False show False by simp
      qed
      have "(l', d') \<noteq> (i, seed)"
      proof
        assume "(l', d') = (i, seed)"
        with closed_back have "sim seed d \<ge> t" by simp
        with False show False by simp
      qed
      with partner Cons x have "(l', d') \<in> set (xs' @ ys)" by auto
      with nd' have p: "(l', d') \<in> set (filter ?Q xs' @ filter ?Q ys)" by auto
      have left: "?left = filter ?Q xs' @ (l, d) # filter ?Q ys"
        using later False by simp
      have "snd ` set ?left \<subseteq> snd ` set ((i, seed) # later)" by auto
      with sub have sub': "snd ` set ?left \<subseteq> D" by (rule subset_trans [rotated])
      from "2.IH" [OF refl refl sub' sym trans left p close]
      show ?thesis unfolding grouped_indices_spec_group_Cons by simp
    qed
  qed
qed

section \<open>Properties of loading and saving\<close>





subsection \<open>Matching\<close>



text \<open>
  C10. A rule whose key phrase is empty, or consists of space characters only, is
  matched by every description, the empty one included. On a database with three
  lists of one length, such a rule's non-empty label makes the field non-empty for
  every description, and the label is the rule's own when no earlier matched rule
  has a label for that field.
\<close>

theorem empty_key_phrase_matches_everything:
  assumes "i < length (descriptions db)"
    and "replace_space (descriptions db ! i) = []"
  shows "i \<in> set (match_description db d) \<and>
         i \<in> set (match_description db []) \<and>
         (length (business_labels db) = length (descriptions db) \<and>
          length (retailer_labels db) = length (descriptions db) \<longrightarrow>
            (business_labels db ! i \<noteq> [] \<longrightarrow>
               fst (fst (categorize_transaction db d)) \<noteq> [] \<and>
               ((\<forall>j\<in>set (match_description db d). j < i \<longrightarrow> business_labels db ! j = []) \<longrightarrow>
                  fst (fst (categorize_transaction db d)) = business_labels db ! i)) \<and>
            (retailer_labels db ! i \<noteq> [] \<longrightarrow>
               snd (fst (categorize_transaction db d)) \<noteq> [] \<and>
               ((\<forall>j\<in>set (match_description db d). j < i \<longrightarrow> retailer_labels db ! j = []) \<longrightarrow>
                  snd (fst (categorize_transaction db d)) = retailer_labels db ! i)))"
proof -
  have key: "replace_space (lower (descriptions db ! i)) = []"
    using assms(2) by (simp add: replace_space_lower_empty)
  have m: "i \<in> set (match_description db e)" for e
    using assms(1) key by (simp add: match_description_filter is_in_empty)
  have field: "v \<noteq> [] \<and> ((\<forall>j\<in>set (match_description db d). j < i \<longrightarrow> labels ! j = []) \<longrightarrow> v = labels ! i)"
    if "labels ! i \<noteq> []" and "spec_earliest_label labels (match_description db d) v"
    for labels v
  proof -
    from that m [of d] obtain k where k: "k \<in> set (match_description db d)"
      "labels ! k \<noteq> []" "v = labels ! k"
      "\<forall>j\<in>set (match_description db d). j < k \<longrightarrow> labels ! j = []"
      unfolding spec_earliest_label_def by (auto split: if_splits)
    have "v = labels ! i" if "\<forall>j\<in>set (match_description db d). j < i \<longrightarrow> labels ! j = []"
    proof -
      have "\<not> k < i" using that k(1,2) by blast
      moreover have "\<not> i < k" using k(4) m [of d] \<open>labels ! i \<noteq> []\<close> by blast
      ultimately show ?thesis using k(3) by simp
    qed
    then show ?thesis using k(2,3) by simp
  qed
  show ?thesis
  proof (intro conjI impI)
    show "i \<in> set (match_description db d)" by (rule m)
    show "i \<in> set (match_description db [])" by (rule m)
  next
    assume len: "length (business_labels db) = length (descriptions db) \<and>
          length (retailer_labels db) = length (descriptions db)"
    have b: "spec_earliest_label (business_labels db) (match_description db d)
               (fst (fst (categorize_transaction db d)))"
      using len find_earliest_label [OF match_description_ascending]
      by (simp add: categorize_transaction_find)
    have r: "spec_earliest_label (retailer_labels db) (match_description db d)
               (snd (fst (categorize_transaction db d)))"
      using len find_earliest_label [OF match_description_ascending]
      by (simp add: categorize_transaction_find)
    {
      assume nz: "business_labels db ! i \<noteq> []"
      from field [OF nz b] show "fst (fst (categorize_transaction db d)) \<noteq> []" by simp
      assume "\<forall>j\<in>set (match_description db d). j < i \<longrightarrow> business_labels db ! j = []"
      with field [OF nz b]
      show "fst (fst (categorize_transaction db d)) = business_labels db ! i" by simp
    }
    {
      assume nz: "retailer_labels db ! i \<noteq> []"
      from field [OF nz r] show "snd (fst (categorize_transaction db d)) \<noteq> []" by simp
      assume "\<forall>j\<in>set (match_description db d). j < i \<longrightarrow> retailer_labels db ! j = []"
      with field [OF nz r]
      show "snd (fst (categorize_transaction db d)) = retailer_labels db ! i" by simp
    }
  qed
qed

subsection \<open>Categorizing one description\<close>

text \<open>
  C2. On a database whose three lists have one length, \<open>categorize(description)\<close>
  returns the pair whose business type is the business label of the lowest-index
  matching rule with a non-empty business label (the empty string when there is
  none), and whose retailer is, independently, the retailer label of the lowest-index
  matching rule with a non-empty retailer label (the empty string when there is none).
  Nothing is printed.
\<close>

theorem categorize_transaction_first_match_per_field:
  assumes "length (business_labels db) = length (descriptions db)"
    and "length (retailer_labels db) = length (descriptions db)"
  shows "spec_earliest_label (business_labels db) (match_description db d)
           (fst (fst (categorize_transaction db d))) \<and>
         spec_earliest_label (retailer_labels db) (match_description db d)
           (snd (fst (categorize_transaction db d))) \<and>
         snd (categorize_transaction db d) = []"
  using assms find_earliest_label [OF match_description_ascending]
  by (simp add: categorize_transaction_find)

text \<open>
  C4. On a database whose three lists do not all have one length,
  \<open>categorize(description)\<close> returns two empty strings for every description, after
  printing the warning and the three lengths; it reads no list element, so nothing
  can raise.
\<close>

theorem categorize_transaction_mismatched_lengths:
  assumes "\<not> (length (descriptions db) = length (business_labels db) \<and>
              length (business_labels db) = length (retailer_labels db))"
  shows "categorize_transaction db d =
           (([], []),
            [Warning_mismatched_lengths,
             Print_descriptions (length (descriptions db)),
             Print_business_labels (length (business_labels db)),
             Print_retailer_labels (length (retailer_labels db))])"
  using assms by (auto simp: categorize_transaction_def)

subsection \<open>Instances\<close>

text \<open>
  An instance of C10: the second rule's key phrase is two spaces; it matches the empty
  description and gives it both of its labels.
\<close>

theorem empty_key_phrase_matches_everything_witness:
  "(1::nat) < length (descriptions
       \<lparr>descriptions = [''costco'', ''  ''], business_labels = [[], ''Misc''],
        retailer_labels = [''Costco'', ''Any'']\<rparr>) \<and>
   1 \<in> set (match_description
       \<lparr>descriptions = [''costco'', ''  ''], business_labels = [[], ''Misc''],
        retailer_labels = [''Costco'', ''Any'']\<rparr> []) \<and>
   fst (categorize_transaction
       \<lparr>descriptions = [''costco'', ''  ''], business_labels = [[], ''Misc''],
        retailer_labels = [''Costco'', ''Any'']\<rparr> []) = (''Misc'', ''Any'')"
proof -
  let ?db = "\<lparr>descriptions = [''costco'', ''  ''], business_labels = [[], ''Misc''],
        retailer_labels = [''Costco'', ''Any'']\<rparr>"
  have i: "(1::nat) < length (descriptions ?db)" by simp
  have k: "replace_space (descriptions ?db ! 1) = []" by (simp add: replace_space_def)
  have v: "fst (categorize_transaction ?db []) = (''Misc'', ''Any'')" by code_simp
  from empty_key_phrase_matches_everything [OF i k, of "[]"] i v show ?thesis by simp
qed

text \<open>
  An instance of C2, with the four descriptions of the test suite on the default
  database, and a database where rule 1 decides the business type and the later
  rule 2 decides the retailer.
\<close>

theorem categorize_transaction_first_match_per_field_witness:
  "length (business_labels default_db) = length (descriptions default_db) \<and>
   length (retailer_labels default_db) = length (descriptions default_db) \<and>
   spec_earliest_label (business_labels default_db)
     (match_description default_db ''STARBUCKS PLEASANTON CA'')
     (fst (fst (categorize_transaction default_db ''STARBUCKS PLEASANTON CA''))) \<and>
   fst (categorize_transaction default_db ''STARBUCKS PLEASANTON CA'') = (''Personal'', []) \<and>
   fst (categorize_transaction default_db ''Amazon Prime Subscription'') = ([], ''Amazon'') \<and>
   fst (categorize_transaction default_db ''Costco Wholesale #123'') = ([], ''Costco'') \<and>
   fst (categorize_transaction default_db ''OAKHURST DAIRY FARM'') = (''Oakhurst'', []) \<and>
   fst (categorize_transaction
     \<lparr>descriptions = [''shop'', ''amazon'', ''amazon shop''],
      business_labels = [[], ''Retail'', ''Other''],
      retailer_labels = [[], [], ''Amazon Shop'']\<rparr> ''Amazon Shop #1'') = (''Retail'', ''Amazon Shop'')"
proof -
  have l1: "length (business_labels default_db) = length (descriptions default_db)"
    by code_simp
  have l2: "length (retailer_labels default_db) = length (descriptions default_db)"
    by code_simp
  have v1: "fst (categorize_transaction default_db ''STARBUCKS PLEASANTON CA'') = (''Personal'', [])"
    by code_simp
  have v2: "fst (categorize_transaction default_db ''Amazon Prime Subscription'') = ([], ''Amazon'')"
    by code_simp
  have v3: "fst (categorize_transaction default_db ''Costco Wholesale #123'') = ([], ''Costco'')"
    by code_simp
  have v4: "fst (categorize_transaction default_db ''OAKHURST DAIRY FARM'') = (''Oakhurst'', [])"
    by code_simp
  have v5: "fst (categorize_transaction
     \<lparr>descriptions = [''shop'', ''amazon'', ''amazon shop''],
      business_labels = [[], ''Retail'', ''Other''],
      retailer_labels = [[], [], ''Amazon Shop'']\<rparr> ''Amazon Shop #1'') = (''Retail'', ''Amazon Shop'')"
    by code_simp
  from categorize_transaction_first_match_per_field [OF l1 l2, of "''STARBUCKS PLEASANTON CA''"]
  have "spec_earliest_label (business_labels default_db)
     (match_description default_db ''STARBUCKS PLEASANTON CA'')
     (fst (fst (categorize_transaction default_db ''STARBUCKS PLEASANTON CA'')))"
    by simp
  with l1 l2 v1 v2 v3 v4 v5 show ?thesis by simp
qed

text \<open>
  An instance of C4: two key phrases, one business label, two retailer labels.
\<close>

theorem categorize_transaction_mismatched_lengths_witness:
  "\<not> (length (descriptions
        \<lparr>descriptions = [''amazon'', ''costco''], business_labels = [''Retail''],
         retailer_labels = [''Amazon'', ''Costco'']\<rparr>) =
       length (business_labels
        \<lparr>descriptions = [''amazon'', ''costco''], business_labels = [''Retail''],
         retailer_labels = [''Amazon'', ''Costco'']\<rparr>) \<and>
       length (business_labels
        \<lparr>descriptions = [''amazon'', ''costco''], business_labels = [''Retail''],
         retailer_labels = [''Amazon'', ''Costco'']\<rparr>) =
       length (retailer_labels
        \<lparr>descriptions = [''amazon'', ''costco''], business_labels = [''Retail''],
         retailer_labels = [''Amazon'', ''Costco'']\<rparr>)) \<and>
   categorize_transaction
     \<lparr>descriptions = [''amazon'', ''costco''], business_labels = [''Retail''],
      retailer_labels = [''Amazon'', ''Costco'']\<rparr> ''Amazon Prime'' =
     (([], []),
      [Warning_mismatched_lengths, Print_descriptions 2, Print_business_labels 1,
       Print_retailer_labels 2])"
proof -
  let ?db = "\<lparr>descriptions = [''amazon'', ''costco''], business_labels = [''Retail''],
      retailer_labels = [''Amazon'', ''Costco'']\<rparr>"
  have h: "\<not> (length (descriptions ?db) = length (business_labels ?db) \<and>
              length (business_labels ?db) = length (retailer_labels ?db))"
    by simp
  from categorize_transaction_mismatched_lengths [OF h, of "''Amazon Prime''"] h
  show ?thesis by simp
qed

subsection \<open>Categorizing a frame\<close>





subsection \<open>Grouping similar descriptions\<close>

text \<open>
  C3. \<open>group(records, threshold)\<close> is the greedy single-pass grouping around seeds:
  the records are scanned in input order; a consumed record is skipped; any other
  record seeds a group, and every later record that is not consumed and whose
  similarity to the seed (\<open>similarity seed d\<close>, not to other members) reaches the
  threshold joins the group and is consumed; a group is in the output only when it has
  at least two indices; groups come in the order of their seeds, the indices of a
  group in input order with the seed first; and every index is an index label of the
  given frame. This holds for any similarity function.
\<close>

theorem find_similar_descriptions_greedy_seed_grouping:
  "find_similar_descriptions similarity df threshold =
     spec_group similarity threshold (map (\<lambda>(l, row). (l, Description row)) df) \<and>
   (\<forall>g\<in>set (find_similar_descriptions similarity df threshold).
      2 \<le> length g \<and> set g \<subseteq> fst ` set df)"
proof
  show eq: "find_similar_descriptions similarity df threshold =
     spec_group similarity threshold (map (\<lambda>(l, row). (l, Description row)) df)"
    by (rule find_similar_descriptions_eq_spec_group)
  have labels: "fst ` set (map (\<lambda>(l, row). (l, Description row)) df) = fst ` set df"
    by (force simp: image_iff)
  show "\<forall>g\<in>set (find_similar_descriptions similarity df threshold).
      2 \<le> length g \<and> set g \<subseteq> fst ` set df"
    unfolding eq using spec_group_shape [of _ similarity threshold] labels by metis
qed

text \<open>
  C7. For thresholds \<open>t1 < t2\<close> and a fixed frame, the indices grouped at \<open>t2\<close>
  are among the indices grouped at \<open>t1\<close> whenever reaching \<open>t1\<close> is a symmetric
  and transitive relation on the descriptions of the frame. Without that condition
  the inclusion can fail, because a record that joins a group at \<open>t1\<close> can seed a
  group of its own at \<open>t2\<close>.
\<close>

theorem grouped_indices_antitone_when_transitive:
  assumes "t1 < t2"
    and sym: "\<forall>a\<in>Description ` snd ` set df. \<forall>b\<in>Description ` snd ` set df.
           similarity a b \<ge> t1 \<longrightarrow> similarity b a \<ge> t1"
    and trans: "\<forall>a\<in>Description ` snd ` set df. \<forall>b\<in>Description ` snd ` set df.
           \<forall>c\<in>Description ` snd ` set df.
           similarity a b \<ge> t1 \<longrightarrow> similarity b c \<ge> t1 \<longrightarrow> similarity a c \<ge> t1"
  shows "grouped_indices (find_similar_descriptions similarity df t2) \<subseteq>
         grouped_indices (find_similar_descriptions similarity df t1)"
proof
  fix l
  define ps where "ps = map (\<lambda>(l, row). (l, Description row)) df"
  define D where "D = Description ` snd ` set df"
  have D: "snd ` set ps \<subseteq> D"
    unfolding ps_def D_def by (force simp: image_iff)
  assume "l \<in> grouped_indices (find_similar_descriptions similarity df t2)"
  then have "l \<in> grouped_indices (spec_group similarity t2 ps)"
    by (simp add: find_similar_descriptions_eq_spec_group ps_def)
  from spec_group_member_has_partner [OF this] obtain xs d ys l' d' where
    ps: "ps = xs @ (l, d) # ys" and partner: "(l', d') \<in> set (xs @ ys)"
    and near: "similarity d d' \<ge> t2 \<or> similarity d' d \<ge> t2" by blast
  have "(l, d) \<in> set ps" unfolding ps by simp
  then have "d \<in> snd ` set ps" by (rule image_eqI [rotated]) simp
  with D have in_d: "d \<in> D" ..
  have "(l', d') \<in> set ps" unfolding ps using partner by auto
  then have "d' \<in> snd ` set ps" by (rule image_eqI [rotated]) simp
  with D have in_d': "d' \<in> D" ..
  from near assms(1) have "similarity d d' \<ge> t1 \<or> similarity d' d \<ge> t1" by auto
  then have "similarity d d' \<ge> t1"
    using sym [folded D_def, rule_format, OF in_d' in_d] by blast
  from spec_group_covers_partnered
    [OF D sym [folded D_def] trans [folded D_def] ps partner this]
  show "l \<in> grouped_indices (find_similar_descriptions similarity df t1)"
    by (simp add: find_similar_descriptions_eq_spec_group ps_def)
qed

text \<open>
  The inclusion as claimed, without the condition, fails for the descriptions \<open>AB\<close>,
  \<open>BC\<close>, \<open>C\<close> with the thresholds 0.5 and 0.6: at 0.5 the seed \<open>AB\<close> takes
  \<open>BC\<close> (ratio 0.5) and \<open>C\<close> stays alone; at 0.6 \<open>AB\<close> stays alone and \<open>BC\<close>
  seeds a group with \<open>C\<close> (ratio 2/3). Index 2 is grouped at 0.6 and not at 0.5.
\<close>

theorem grouped_indices_antitone_counterexample:
  "(1 / 2 :: rat) < 3 / 5 \<and>
   find_similar_descriptions ratio chain_frame (1 / 2) = [[0, 1]] \<and>
   find_similar_descriptions ratio chain_frame (3 / 5) = [[1, 2]] \<and>
   \<not> grouped_indices (find_similar_descriptions ratio chain_frame (3 / 5)) \<subseteq>
       grouped_indices (find_similar_descriptions ratio chain_frame (1 / 2))"
proof -
  have a: "find_similar_descriptions ratio chain_frame (1 / 2) = [[0, 1]]" by code_simp
  have b: "find_similar_descriptions ratio chain_frame (3 / 5) = [[1, 2]]" by code_simp
  show ?thesis unfolding a b by (simp add: grouped_indices_def)
qed

text \<open>
  An instance of C3 with \<open>difflib\<close>'s ratio: the four descriptions of the test suite
  at the threshold 0.6. The two Walmart rows form the one group; the ratio of
  \<open>WALMART #1234\<close> and \<open>STARBUCKS #1234\<close> is 4/7, below the threshold.
\<close>

theorem find_similar_descriptions_greedy_seed_grouping_witness:
  "find_similar_descriptions ratio test_frame (3 / 5) = [[0, 1]] \<and>
   spec_group ratio (3 / 5) (map (\<lambda>(l, row). (l, Description row)) test_frame) = [[0, 1]] \<and>
   ratio ''WALMART #1234'' ''WALMART #5678'' = 9 / 13 \<and>
   ratio ''WALMART #1234'' ''STARBUCKS #1234'' = 4 / 7"
proof -
  have v: "find_similar_descriptions ratio test_frame (3 / 5) = [[0, 1]]" by code_simp
  have r1: "ratio ''WALMART #1234'' ''WALMART #5678'' = 9 / 13" by code_simp
  have r2: "ratio ''WALMART #1234'' ''STARBUCKS #1234'' = 4 / 7" by code_simp
  from find_similar_descriptions_greedy_seed_grouping [of ratio test_frame "3 / 5"] v r1 r2
  show ?thesis by simp
qed

text \<open>
  An instance of C7: three Walmart rows, two of them equal. At 0.6 every pair of the
  descriptions is similar, so the relation is symmetric and transitive; all three rows
  are grouped at 0.6 and the two equal ones at 0.9.
\<close>

theorem grouped_indices_antitone_when_transitive_witness:
  "(3 / 5 :: rat) < 9 / 10 \<and>
   find_similar_descriptions ratio walmart_frame (3 / 5) = [[0, 1, 2]] \<and>
   find_similar_descriptions ratio walmart_frame (9 / 10) = [[0, 1]] \<and>
   grouped_indices (find_similar_descriptions ratio walmart_frame (9 / 10)) \<subseteq>
   grouped_indices (find_similar_descriptions ratio walmart_frame (3 / 5))"
proof -
  have lt: "(3 / 5 :: rat) < 9 / 10" by simp
  have D: "Description ` snd ` set walmart_frame = {''WALMART #1234'', ''WALMART #5678''}"
    by (auto simp: walmart_frame_def)
  have r: "ratio ''WALMART #1234'' ''WALMART #1234'' = 1"
    "ratio ''WALMART #1234'' ''WALMART #5678'' = 9 / 13"
    "ratio ''WALMART #5678'' ''WALMART #1234'' = 9 / 13"
    "ratio ''WALMART #5678'' ''WALMART #5678'' = 1"
    by code_simp+
  have sym: "\<forall>a\<in>Description ` snd ` set walmart_frame.
      \<forall>b\<in>Description ` snd ` set walmart_frame. ratio a b \<ge> 3 / 5 \<longrightarrow> ratio b a \<ge> 3 / 5"
    unfolding D by (simp add: r)
  have trans: "\<forall>a\<in>Description ` snd ` set walmart_frame.
      \<forall>b\<in>Description ` snd ` set walmart_frame. \<forall>c\<in>Description ` snd ` set walmart_frame.
      ratio a b \<ge> 3 / 5 \<longrightarrow> ratio b c \<ge> 3 / 5 \<longrightarrow> ratio a c \<ge> 3 / 5"
    unfolding D by (simp add: r)
  have a: "find_similar_descriptions ratio walmart_frame (3 / 5) = [[0, 1, 2]]" by code_simp
  have b: "find_similar_descriptions ratio walmart_frame (9 / 10) = [[0, 1]]" by code_simp
  from grouped_indices_antitone_when_transitive [OF lt sym trans] lt a b
  show ?thesis by simp
qed

subsection \<open>Persistence of the category database\<close>




text \<open>
  C1. The claim wants an operation \<open>add_category(key_phrase, business_label,
  retailer_label)\<close> that appends a rule. The class defines no attribute of that
  name: the call in \<open>test_save_and_load_category_db\<close> (and the one in the
  application) raises \<open>AttributeError\<close> before anything is appended, saved or
  loaded. The one method with a similar name, \<open>add_business_type\<close>, has the body
  \<open>pass\<close> and leaves the database as it is.
\<close>

theorem add_category_is_not_defined:
  "getattr ''add_category'' = Inl (AttributeError ''add_category'') \<and>
   getattr ''add_business_type'' = Inr ''add_business_type'' \<and>
   add_business_type (dict_of_db default_db) ''Retail'' = dict_of_db default_db"
proof -
  have a: "getattr ''add_category'' = Inl (AttributeError ''add_category'')" by code_simp
  have b: "getattr ''add_business_type'' = Inr ''add_business_type''" by code_simp
  show ?thesis using a b by (simp add: add_business_type_def)
qed


end
